theory Spec2Isabelle
  imports Main "HOL-Library.Word"
begin

section \<open>Data model of opendj.go\<close>

text \<open>
  \<open>time.Duration\<close> is a signed 64-bit count of nanoseconds; its \<open>+\<close> and \<open>-\<close> wrap.
  \<open>time.Time\<close> is only stored and handed back to \<open>time.Since\<close>, so an instant is an
  integer count of nanoseconds. Indices are Go \<open>int\<close>s; the only arithmetic on them is
  \<open>index+1\<close> under the guard \<open>index < len\<close>, which cannot overflow, so they are \<open>int\<close>.
\<close>

type_synonym duration = "64 word"
type_synonym time = int

text \<open>
  Error values. \<open>ErrorEmptyQueue\<close> is the package-level sentinel; \<open>New msg\<close> is a fresh
  \<open>errors.New(msg)\<close>; \<open>Errorf msg e\<close> is \<open>fmt.Errorf(msg + ": %w", e)\<close>;
  \<open>ExecError c\<close> stands for an error handed back by \<open>os\<close> and \<open>os/exec\<close>
  (a non-zero exit status \<open>c\<close>, a missing binary, a broken pipe).
\<close>

datatype error =
    ErrorEmptyQueue
  | New string
  | Errorf string error
  | ExecError nat

text \<open>\<open>errors.Is\<close>: identity with the target, searched along the chain of wrapped errors.\<close>

fun errors_Is :: "error \<Rightarrow> error \<Rightarrow> bool" where
  "errors_Is (Errorf msg e) target = (Errorf msg e = target \<or> errors_Is e target)"
| "errors_Is e target = (e = target)"

record Media =
  Title :: string
  URL :: string
  Duration :: duration

record QueueEntry =
  Media :: Media
  Owner :: string
  Dedication :: string

text \<open>The zero values \<open>Media{}\<close> and \<open>QueueEntry{}\<close>.\<close>

definition Media_zero :: Media where
  "Media_zero = \<lparr>Title = [], URL = [], Duration = 0\<rparr>"

definition QueueEntry_zero :: QueueEntry where
  "QueueEntry_zero = \<lparr>Media = Media_zero, Owner = [], Dedication = []\<rparr>"

text \<open>The \<open>queue\<close> struct; its mutex serialises the operations and has no value of its own.\<close>

record queue =
  Items :: "QueueEntry list"

text \<open>A handler slot holds a function or \<open>nil\<close>; the model keeps whether it is set.\<close>

record handlers =
  newSongHandler :: bool
  endOfSongHandler :: bool
  errorHander :: bool

record Dj =
  waitingQueue :: queue
  currentEntry :: QueueEntry
  handlers :: handlers
  songStarted :: time

definition Queue :: "Dj \<Rightarrow> QueueEntry list" where
  "Queue dj = Items (waitingQueue dj)"

definition set_Items :: "QueueEntry list \<Rightarrow> Dj \<Rightarrow> Dj" where
  "set_Items xs dj = dj\<lparr>waitingQueue := (waitingQueue dj)\<lparr>Items := xs\<rparr>\<rparr>"

section \<open>Slice primitives\<close>

text \<open>
  \<open>copy(s[d:], s[m:])\<close> on one slice \<open>s\<close>: \<open>min(len(s[d:]), len(s[m:]))\<close> elements are
  moved as by \<open>memmove\<close>, so the source range is read before it is overwritten.
\<close>

definition copy_within :: "'a list \<Rightarrow> nat \<Rightarrow> nat \<Rightarrow> 'a list" where
  "copy_within s d m =
     (let n = min (length s - d) (length s - m)
      in take d s @ take n (drop m s) @ drop (d + n) s)"

section \<open>Queue operations\<close>

definition AddEntry :: "QueueEntry \<Rightarrow> Dj \<Rightarrow> Dj" where
  "AddEntry newEntry dj = set_Items (Queue dj @ [newEntry]) dj"

definition InsertEntry :: "QueueEntry \<Rightarrow> int \<Rightarrow> Dj \<Rightarrow> error option \<times> Dj" where
  "InsertEntry newEntry index dj =
     (if index < 0 then (Some (New ''index out of range''), dj)
      else if index \<ge> int (length (Queue dj)) then
        (None, set_Items (Queue dj @ [newEntry]) dj)
      else
        let grown = Queue dj @ [QueueEntry_zero];
            shifted = copy_within grown (nat (index + 1)) (nat index);
            placed = shifted[nat index := newEntry]
        in (None, set_Items placed dj))"

definition RemoveIndex :: "int \<Rightarrow> Dj \<Rightarrow> error option \<times> Dj" where
  "RemoveIndex index dj =
     (if index \<ge> int (length (Queue dj)) \<or> index < 0 then
        (Some (New ''index out of range''), dj)
      else
        (None, set_Items (take (nat index) (Queue dj) @ drop (nat (index + 1)) (Queue dj)) dj))"

definition ChangeIndex :: "QueueEntry \<Rightarrow> int \<Rightarrow> Dj \<Rightarrow> error option \<times> Dj" where
  "ChangeIndex newEntry index dj =
     (if index < 0 \<or> index \<ge> int (length (Queue dj)) then
        (Some (New ''index out of range''), dj)
      else (None, set_Items ((Queue dj)[nat index := newEntry]) dj))"

definition pop :: "Dj \<Rightarrow> (QueueEntry \<times> error option) \<times> Dj" where
  "pop dj =
     (if length (Queue dj) < 1 then ((QueueEntry_zero, Some ErrorEmptyQueue), dj)
      else
        let entry = Queue dj ! 0
        in ((entry, None), set_Items (drop 1 (Queue dj)) dj))"

definition EntryAtIndex :: "int \<Rightarrow> Dj \<Rightarrow> (QueueEntry \<times> error option) \<times> Dj" where
  "EntryAtIndex index dj =
     (if index \<ge> int (length (Queue dj)) \<or> index < 0 then
        ((QueueEntry_zero, Some (New ''index out of range'')), dj)
      else
        let entry = Queue dj ! nat index
        in ((entry, None), dj))"

section \<open>Queries\<close>

text \<open>
  \<open>time.Since(dj.songStarted)\<close> reads the clock; the function \<open>time_Since\<close> is the
  reading at the moment of the call.
\<close>

text \<open>The \<open>range\<close> loop of \<open>DurationUntilUser\<close>, with its two variables \<open>dur\<close> and \<open>durations\<close>.\<close>

fun DurationUntilUser_loop ::
  "string \<Rightarrow> QueueEntry list \<Rightarrow> duration \<Rightarrow> duration list \<Rightarrow> duration list" where
  "DurationUntilUser_loop nick [] dur durations = durations"
| "DurationUntilUser_loop nick (content # rest) dur durations =
     DurationUntilUser_loop nick rest (dur + Duration (Media content))
       (if Owner content = nick then durations @ [dur] else durations)"

definition DurationUntilUser :: "(time \<Rightarrow> duration) \<Rightarrow> Dj \<Rightarrow> string \<Rightarrow> duration list" where
  "DurationUntilUser time_Since dj nick =
     (let dur = Duration (Media (currentEntry dj)) - time_Since (songStarted dj)
      in DurationUntilUser_loop nick (Queue dj) dur [])"

definition CurrentlyPlaying ::
  "(time \<Rightarrow> duration) \<Rightarrow> Dj \<Rightarrow> QueueEntry \<times> duration \<times> error option" where
  "CurrentlyPlaying time_Since dj =
     (let err = (if Media (currentEntry dj) = Media_zero
                 then Some (New ''there is no song being played'') else None)
      in (currentEntry dj, time_Since (songStarted dj), err))"

section \<open>Other callers of the queue\<close>

text \<open>
  The four exported mutators as a datatype of calls, so that a sequence of calls is a list.
  Each runs under the queue's mutex, hence one after the other.
\<close>

datatype qop =
    Add QueueEntry
  | Insert QueueEntry int
  | RemoveAt int
  | ReplaceAt QueueEntry int

fun exec_op :: "qop \<Rightarrow> Dj \<Rightarrow> error option \<times> Dj" where
  "exec_op (Add e) dj = (None, AddEntry e dj)"
| "exec_op (Insert e i) dj = InsertEntry e i dj"
| "exec_op (RemoveAt i) dj = RemoveIndex i dj"
| "exec_op (ReplaceAt e i) dj = ChangeIndex e i dj"

fun exec_ops :: "qop list \<Rightarrow> Dj \<Rightarrow> error option list \<times> Dj" where
  "exec_ops [] dj = ([], dj)"
| "exec_ops (op # ops) dj =
     (let (r, dj1) = exec_op op dj; (rs, dj2) = exec_ops ops dj1 in (r # rs, dj2))"

section \<open>The producer loop of Play\<close>

text \<open>
  What the producer goroutine of \<open>Play\<close> meets outside the program: whether the FIFO opens,
  what \<open>yt-dlp\<close> prints (or the error of \<open>Output()\<close>) and what \<open>cmd.Run()\<close> of
  \<open>ffmpeg\<close> returns for given arguments in the \<open>n\<close>-th pass of the loop, the library's
  \<open>strings.TrimSpace\<close>, and the reading of \<open>time.Now()\<close> in that pass.
  The second goroutine of \<open>Play\<close>, which relays the FIFO to the RTMP server, runs beside the
  producer and meets it only through the FIFO; it is not modelled.
\<close>

record world =
  open_fifo :: "error option"
  yt_dlp :: "nat \<Rightarrow> string list \<Rightarrow> error + string"
  ffmpeg :: "nat \<Rightarrow> string list \<Rightarrow> error option"
  TrimSpace :: "string \<Rightarrow> string"
  time_Now :: "nat \<Rightarrow> time"

text \<open>
  What a run does, in order: a successful \<open>pop\<close>, a call of a registered handler, and a
  finished \<open>ffmpeg\<close> run writing into the FIFO (silence, or the audio of an entry) with its
  arguments and the result of \<open>writeToFIFO\<close>. \<open>cmd.Run()\<close> returns when the process has exited, so
  a run is one event.
\<close>

datatype event =
    Popped QueueEntry
  | NewSong QueueEntry
  | Silence "string list" "error option"
  | Audio QueueEntry "string list" "error option"
  | EndOfSong QueueEntry "error option"

definition encoder_args :: "string list" where
  "encoder_args =
     [''-c:a'', ''aac'', ''-strict'', ''-2'', ''-ar'', ''44100'', ''-b:a'', ''160k'',
      ''-ac'', ''2'', ''-f'', ''mpegts'', ''pipe:1'']"

definition writeToFIFO :: "world \<Rightarrow> nat \<Rightarrow> string list \<Rightarrow> error option" where
  "writeToFIFO w n args =
     (case ffmpeg w n (args @ encoder_args) of
        Some err \<Rightarrow> Some (Errorf ''failed to write to pipe'' err)
      | None \<Rightarrow> None)"

definition silence_args :: "string list" where
  "silence_args = [''-re'', ''-t'', ''00:00:15'', ''-f'', ''lavfi'', ''-i'', ''anullsrc'']"

definition audio_args :: "string \<Rightarrow> string list" where
  "audio_args audioURL = [''-reconnect'', ''1'', ''-i'', audioURL, ''-af'', ''apad=pad_dur=5'']"

text \<open>The variables of the loop: the \<open>Dj\<close>, \<open>emptyStreamCounter\<close>, and what has happened so far.\<close>

record producer_state =
  st_dj :: Dj
  emptyStreamCounter :: nat
  trace :: "event list"

text \<open>How a pass through the loop body ends: \<open>continue\<close> (or its end), \<open>break\<close>, \<open>return err\<close>.\<close>

datatype flow =
    Continue producer_state
  | Break producer_state
  | Return error producer_state

definition iteration :: "world \<Rightarrow> nat \<Rightarrow> producer_state \<Rightarrow> flow" where
  "iteration w n st =
     (case pop (st_dj st) of ((entry, err), dj1) \<Rightarrow>
        (case err of
           Some e \<Rightarrow>
             let dj2 = dj1\<lparr>currentEntry := QueueEntry_zero\<rparr>
             in if errors_Is e ErrorEmptyQueue then
                  if emptyStreamCounter st \<ge> 4 then Break (st\<lparr>st_dj := dj2\<rparr>)
                  else
                    let err = writeToFIFO w n silence_args;
                        tr = trace st @ [Silence (silence_args @ encoder_args) err]
                    in (case err of
                          Some e' \<Rightarrow> Return e' (st\<lparr>st_dj := dj2, trace := tr\<rparr>)
                        | None \<Rightarrow>
                            Continue (st\<lparr>st_dj := dj2,
                              emptyStreamCounter := emptyStreamCounter st + 1, trace := tr\<rparr>))
                else Return e (st\<lparr>st_dj := dj2\<rparr>)
         | None \<Rightarrow>
             let dj2 = dj1\<lparr>currentEntry := entry\<rparr>;
                 tr0 = trace st @ [Popped entry]
             in (case yt_dlp w n [''-f'', ''bestaudio'', ''-g'', URL (Media entry)] of
                   Inl e \<Rightarrow> Return e (st\<lparr>st_dj := dj2, trace := tr0\<rparr>)
                 | Inr output \<Rightarrow>
                     let audioURL = TrimSpace w output;
                         tr1 = (if newSongHandler (handlers dj2)
                                then tr0 @ [NewSong entry] else tr0);
                         dj3 = dj2\<lparr>songStarted := time_Now w n\<rparr>;
                         err = writeToFIFO w n (audio_args audioURL);
                         tr2 = tr1 @ [Audio entry (audio_args audioURL @ encoder_args) err]
                     in (case err of
                           Some e \<Rightarrow> Return e (st\<lparr>st_dj := dj3, trace := tr2\<rparr>)
                         | None \<Rightarrow>
                             let tr3 = (if endOfSongHandler (handlers dj3)
                                        then tr2 @ [EndOfSong entry err] else tr2)
                             in Continue (st\<lparr>st_dj := dj3, trace := tr3\<rparr>)))))"

text \<open>
  Other goroutines call the queue's mutators while the loop runs. The loop touches the queue
  only in \<open>pop\<close>, so what matters is which calls have completed before each \<open>pop\<close>:
  \<open>sched\<close> lists them pass by pass, and after its last element nobody else touches the queue.
  With these finitely many calls the loop ends, which the termination proof below shows; a
  queue that is refilled for ever keeps the real loop running and has no \<open>sched\<close>.
\<close>

definition others :: "qop list list \<Rightarrow> producer_state \<Rightarrow> producer_state" where
  "others sched st =
     (case sched of
        [] \<Rightarrow> st
      | calls # later \<Rightarrow> st\<lparr>st_dj := snd (exec_ops calls (st_dj st))\<rparr>)"

function producer_loop ::
  "world \<Rightarrow> qop list list \<Rightarrow> nat \<Rightarrow> producer_state \<Rightarrow> error option \<times> producer_state" where
  "producer_loop w sched n st =
     (case iteration w n (others sched st) of
        Continue st' \<Rightarrow> producer_loop w (tl sched) (Suc n) st'
      | Break st' \<Rightarrow> (None, st')
      | Return err st' \<Rightarrow> (Some err, st'))"
  by pat_completeness auto
termination
proof (relation "measure (\<lambda>(w, sched, n, st).
          sum_list (map length sched) + length sched
          + length (Queue (st_dj st)) + (4 - emptyStreamCounter st))")
  show "wf (measure (\<lambda>(w, sched, n, st).
          sum_list (map length sched) + length sched
          + length (Queue (st_dj st)) + (4 - emptyStreamCounter st)))"
    by simp
next
  fix w :: world and sched :: "qop list list" and n :: nat and st st' :: producer_state
  assume step: "iteration w n (others sched st) = Continue st'"
  have one: "length (Queue (snd (exec_op c d))) \<le> Suc (length (Queue d))" for c d
    by (cases c) (auto simp: AddEntry_def InsertEntry_def RemoveIndex_def ChangeIndex_def
        Queue_def set_Items_def copy_within_def Let_def)
  have many: "length (Queue (snd (exec_ops cs d))) \<le> length (Queue d) + length cs" for cs d
  proof (induction cs arbitrary: d)
    case Nil
    show ?case by simp
  next
    case (Cons c cs)
    have "length (Queue (snd (exec_ops cs (snd (exec_op c d)))))
            \<le> length (Queue (snd (exec_op c d))) + length cs"
      by (rule Cons.IH)
    with one [of c d] show ?case
      by (simp add: split_beta Let_def)
  qed
  have before: "length (Queue (st_dj (others sched st))) + sum_list (map length (tl sched))
                  + length (tl sched)
                \<le> length (Queue (st_dj st)) + sum_list (map length sched) + length sched"
    and same: "emptyStreamCounter (others sched st) = emptyStreamCounter st"
    using many [of "hd sched" "st_dj st"]
    by (cases sched; simp add: others_def)+
  have "length (Queue (st_dj st')) + (4 - emptyStreamCounter st')
          < length (Queue (st_dj (others sched st))) + (4 - emptyStreamCounter (others sched st))"
    using step
    by (auto simp: iteration_def pop_def Let_def Queue_def set_Items_def
        split: if_splits option.splits sum.splits)
  with before same
  show "((w, tl sched, Suc n, st'), (w, sched, n, st)) \<in> measure (\<lambda>(w, sched, n, st).
          sum_list (map length sched) + length sched
          + length (Queue (st_dj st)) + (4 - emptyStreamCounter st))"
    by (cases sched) auto
qed

declare producer_loop.simps [simp del]

text \<open>The producer goroutine: open the FIFO, then loop from \<open>emptyStreamCounter = 0\<close>.\<close>

definition producer :: "world \<Rightarrow> qop list list \<Rightarrow> Dj \<Rightarrow> error option \<times> producer_state" where
  "producer w sched dj =
     (let st = \<lparr>st_dj = dj, emptyStreamCounter = 0, trace = []\<rparr>
      in case open_fifo w of
           Some err \<Rightarrow> (Some err, st)
         | None \<Rightarrow> producer_loop w sched 0 st)"

section \<open>The reference list model of the specification\<close>

text \<open>
  Written from the specification's section 4.1, not from the code: the queue is a plain
  list, \<open>OutOfRange\<close> is the error of a bad index, and a failed call leaves the list as it was.
\<close>

definition OutOfRange :: error where
  "OutOfRange = New ''index out of range''"

definition NothingPlaying :: error where
  "NothingPlaying = New ''there is no song being played''"

definition ref_Add :: "QueueEntry \<Rightarrow> QueueEntry list \<Rightarrow> error option \<times> QueueEntry list" where
  "ref_Add e xs = (None, xs @ [e])"

fun ref_op :: "qop \<Rightarrow> QueueEntry list \<Rightarrow> error option \<times> QueueEntry list" where
  "ref_op (Add e) xs = ref_Add e xs"
| "ref_op (Insert e i) xs =
     (if i < 0 then (Some OutOfRange, xs)
      else if i \<ge> int (length xs) then ref_Add e xs
      else (None, take (nat i) xs @ [e] @ drop (nat i) xs))"
| "ref_op (RemoveAt i) xs =
     (if i < 0 \<or> i \<ge> int (length xs) then (Some OutOfRange, xs)
      else (None, take (nat i) xs @ drop (Suc (nat i)) xs))"
| "ref_op (ReplaceAt e i) xs =
     (if i < 0 \<or> i \<ge> int (length xs) then (Some OutOfRange, xs)
      else (None, xs[nat i := e]))"

fun ref_ops :: "qop list \<Rightarrow> QueueEntry list \<Rightarrow> error option list \<times> QueueEntry list" where
  "ref_ops [] xs = ([], xs)"
| "ref_ops (op # ops) xs =
     (let (r, xs1) = ref_op op xs; (rs, xs2) = ref_ops ops xs1 in (r # rs, xs2))"

text \<open>
  The length each call's contract predicts, from the call, its result and the length before:
  \<open>Add\<close> and a successful \<open>Insert\<close> grow the queue by one, a successful \<open>RemoveAt\<close>
  shrinks it by one, everything else leaves it.
\<close>

fun predicted_length :: "qop \<Rightarrow> error option \<Rightarrow> int \<Rightarrow> int" where
  "predicted_length (Add e) r n = n + 1"
| "predicted_length (Insert e i) None n = n + 1"
| "predicted_length (RemoveAt i) None n = n - 1"
| "predicted_length op r n = n"

section \<open>The shape of a run\<close>

text \<open>
  What one entry contributes to a run after its \<open>Popped\<close>: the new-song callback if
  registered, the finished \<open>ffmpeg\<close> run that wrote its audio without error, the end-of-song
  callback if registered.
\<close>

definition new_song_events :: "handlers \<Rightarrow> QueueEntry \<Rightarrow> event list" where
  "new_song_events h x = (if newSongHandler h then [NewSong x] else [])"

definition song_events :: "handlers \<Rightarrow> QueueEntry \<Rightarrow> string list \<Rightarrow> event list" where
  "song_events h x args =
     new_song_events h x @ [Audio x args None]
     @ (if endOfSongHandler h then [EndOfSong x None] else [])"

definition end_song_events :: "handlers \<Rightarrow> QueueEntry \<Rightarrow> event list" where
  "end_song_events h x = (if endOfSongHandler h then [EndOfSong x None] else [])"

text \<open>What \<open>writeToFIFO\<close> makes of the result of \<open>cmd.Run()\<close>.\<close>

definition write_result :: "error option \<Rightarrow> error option" where
  "write_result r = (case r of Some err \<Rightarrow> Some (Errorf ''failed to write to pipe'' err) | None \<Rightarrow> None)"

text \<open>
  What the \<open>n\<close>-th pass of the loop does, given what its \<open>pop\<close> returned, written from the
  order the specification gives (section 4.2, steps 1 to 5) and from the world alone: a pass
  that finds the queue empty is one \<open>ffmpeg\<close> run writing silence; a pass that pops \<open>x\<close> is
  the pop, then, if \<open>yt-dlp\<close> resolves the URL, the new-song callback, the \<open>ffmpeg\<close> run
  writing \<open>x\<close>'s audio with the arguments built from what \<open>yt-dlp\<close> printed, and, if that run
  returned no error, the end-of-song callback.
\<close>

definition pass_events :: "handlers \<Rightarrow> world \<Rightarrow> nat \<Rightarrow> QueueEntry option \<Rightarrow> event list" where
  "pass_events h w n popped =
     (case popped of
        None \<Rightarrow>
          [Silence (silence_args @ encoder_args)
             (write_result (ffmpeg w n (silence_args @ encoder_args)))]
      | Some x \<Rightarrow>
          Popped x #
          (case yt_dlp w n [''-f'', ''bestaudio'', ''-g'', URL (Media x)] of
             Inl e \<Rightarrow> []
           | Inr output \<Rightarrow>
               new_song_events h x
               @ [Audio x (audio_args (TrimSpace w output) @ encoder_args)
                    (write_result (ffmpeg w n (audio_args (TrimSpace w output) @ encoder_args)))]
               @ (if ffmpeg w n (audio_args (TrimSpace w output) @ encoder_args) = None
                  then end_song_events h x else [])))"

text \<open>A pass that reached the end of the loop body: every external run in it succeeded.\<close>

definition pass_completed :: "world \<Rightarrow> nat \<Rightarrow> QueueEntry option \<Rightarrow> bool" where
  "pass_completed w n popped =
     (case popped of
        None \<Rightarrow> ffmpeg w n (silence_args @ encoder_args) = None
      | Some x \<Rightarrow>
          (case yt_dlp w n [''-f'', ''bestaudio'', ''-g'', URL (Media x)] of
             Inl e \<Rightarrow> False
           | Inr output \<Rightarrow>
               ffmpeg w n (audio_args (TrimSpace w output) @ encoder_args) = None))"

text \<open>The passes numbered \<open>n\<close>, \<open>n + 1\<close>, ... one after the other.\<close>

fun run_events :: "handlers \<Rightarrow> world \<Rightarrow> nat \<Rightarrow> QueueEntry option list \<Rightarrow> event list" where
  "run_events h w n [] = []"
| "run_events h w n (popped # later) = pass_events h w n popped @ run_events h w (Suc n) later"

section \<open>Sample values\<close>

text \<open>The zero \<open>Dj\<close> (\<open>var dj opendj.Dj\<close>, as in the README) and three entries.\<close>

definition Dj_zero :: Dj where
  "Dj_zero =
     \<lparr>waitingQueue = \<lparr>Items = []\<rparr>, currentEntry = QueueEntry_zero,
      handlers = \<lparr>newSongHandler = False, endOfSongHandler = False, errorHander = False\<rparr>,
      songStarted = 0\<rparr>"

definition entry_A :: QueueEntry where
  "entry_A = \<lparr>Media = \<lparr>Title = ''A'', URL = ''https://a'', Duration = 10\<rparr>,
              Owner = ''X'', Dedication = []\<rparr>"

definition entry_B :: QueueEntry where
  "entry_B = \<lparr>Media = \<lparr>Title = ''B'', URL = ''https://b'', Duration = 5\<rparr>,
              Owner = ''Y'', Dedication = []\<rparr>"

definition entry_C :: QueueEntry where
  "entry_C = \<lparr>Media = \<lparr>Title = ''C'', URL = ''https://c'', Duration = 7\<rparr>,
              Owner = ''X'', Dedication = []\<rparr>"

text \<open>A world in which every external call succeeds, and a \<open>handlers\<close> with all three set.\<close>

definition world_ok :: world where
  "world_ok =
     \<lparr>open_fifo = None,
      yt_dlp = (\<lambda>n args. Inr (''stream:'' @ last args @ ''\<newline>'')),
      ffmpeg = (\<lambda>n args. None),
      TrimSpace = takeWhile (\<lambda>c. c \<noteq> CHR ''\<newline>''),
      time_Now = (\<lambda>n. 1000 + int n)\<rparr>"

definition handlers_all :: handlers where
  "handlers_all = \<lparr>newSongHandler = True, endOfSongHandler = True, errorHander = True\<rparr>"

text \<open>Two queued entries with every handler registered, and the run they give in \<open>world_ok\<close>.\<close>

definition two_songs :: Dj where
  "two_songs = set_Items [entry_A, entry_B] (Dj_zero\<lparr>handlers := handlers_all\<rparr>)"

definition two_songs_trace :: "event list" where
  "two_songs_trace =
     [Popped entry_A, NewSong entry_A,
      Audio entry_A
        [''-reconnect'', ''1'', ''-i'', ''stream:https://a'', ''-af'', ''apad=pad_dur=5'',
         ''-c:a'', ''aac'', ''-strict'', ''-2'', ''-ar'', ''44100'', ''-b:a'', ''160k'',
         ''-ac'', ''2'', ''-f'', ''mpegts'', ''pipe:1''] None,
      EndOfSong entry_A None,
      Popped entry_B, NewSong entry_B,
      Audio entry_B
        [''-reconnect'', ''1'', ''-i'', ''stream:https://b'', ''-af'', ''apad=pad_dur=5'',
         ''-c:a'', ''aac'', ''-strict'', ''-2'', ''-ar'', ''44100'', ''-b:a'', ''160k'',
         ''-ac'', ''2'', ''-f'', ''mpegts'', ''pipe:1''] None,
      EndOfSong entry_B None,
      Silence (silence_args @ encoder_args) None,
      Silence (silence_args @ encoder_args) None,
      Silence (silence_args @ encoder_args) None,
      Silence (silence_args @ encoder_args) None]"

section \<open>Facts about the slice primitives and the queue\<close>

lemma Queue_set_Items [simp]: "Queue (set_Items xs dj) = xs"
  by (simp add: Queue_def set_Items_def)

lemma set_Items_Queue [simp]: "set_Items (Queue dj) dj = dj"
  by (simp add: Queue_def set_Items_def)

lemma insert_shift:
  assumes "i < length xs"
  shows "(copy_within (xs @ [z]) (Suc i) i)[i := e] = take i xs @ [e] @ drop i xs"
proof -
  have n: "min (length (xs @ [z]) - Suc i) (length (xs @ [z]) - i) = length xs - i"
    by simp
  have "copy_within (xs @ [z]) (Suc i) i = take (Suc i) xs @ drop i xs"
    unfolding copy_within_def Let_def n using assms by simp
  also have "\<dots> = take i xs @ xs ! i # drop i xs"
    using assms by (simp add: take_Suc_conv_app_nth)
  finally show ?thesis
    using assms by (simp add: list_update_append)
qed

lemma exec_op_refines: "map_prod id Queue (exec_op op dj) = ref_op op (Queue dj)"
proof (cases op)
  case (Add e)
  then show ?thesis by (simp add: ref_Add_def AddEntry_def)
next
  case (Insert e i)
  show ?thesis
  proof (cases "0 \<le> i \<and> i < int (length (Queue dj))")
    case True
    then have lt: "nat i < length (Queue dj)" by linarith
    from True have suc: "nat (i + 1) = Suc (nat i)" by linarith
    from True insert_shift [OF lt] show ?thesis
      by (simp add: Insert InsertEntry_def Let_def suc)
  next
    case False
    then show ?thesis
      by (auto simp: Insert InsertEntry_def OutOfRange_def ref_Add_def)
  qed
next
  case (RemoveAt i)
  show ?thesis
  proof (cases "0 \<le> i \<and> i < int (length (Queue dj))")
    case True
    then have suc: "nat (i + 1) = Suc (nat i)" by linarith
    from True show ?thesis
      by (simp add: RemoveAt RemoveIndex_def suc)
  next
    case False
    then show ?thesis
      by (auto simp: RemoveAt RemoveIndex_def OutOfRange_def)
  qed
next
  case (ReplaceAt e i)
  then show ?thesis by (auto simp: ChangeIndex_def OutOfRange_def)
qed

lemma exec_ops_refines: "map_prod id Queue (exec_ops ops dj) = ref_ops ops (Queue dj)"
proof (induction ops arbitrary: dj)
  case Nil
  show ?case by simp
next
  case (Cons op ops)
  obtain r dj1 where s: "exec_op op dj = (r, dj1)" by (cases "exec_op op dj")
  with exec_op_refines [of op dj] have r: "ref_op op (Queue dj) = (r, Queue dj1)" by simp
  obtain rs dj2 where t: "exec_ops ops dj1 = (rs, dj2)" by (cases "exec_ops ops dj1")
  with Cons.IH [of dj1] have "ref_ops ops (Queue dj1) = (rs, Queue dj2)" by simp
  with s r t show ?case by simp
qed

lemma exec_op_length:
  "int (length (Queue (snd (exec_op op dj)))) =
     predicted_length op (fst (exec_op op dj)) (int (length (Queue dj)))"
  by (cases op) (auto simp: AddEntry_def InsertEntry_def RemoveIndex_def ChangeIndex_def
      copy_within_def Let_def)

text \<open>
  C1. For every sequence of \<open>Add\<close>, \<open>Insert\<close>, \<open>RemoveAt\<close> and \<open>ReplaceAt\<close> calls
  (\<open>AddEntry\<close>, \<open>InsertEntry\<close>, \<open>RemoveIndex\<close>, \<open>ChangeIndex\<close>) run on a \<open>Dj\<close>, the results of the
  calls and the queue after the sequence are those of the reference list model run on the same
  sequence, and each call of the sequence changes the length of the queue as its contract
  predicts from the call and its result.
\<close>

theorem queue_matches_list_model:
  "fst (exec_ops ops dj) = fst (ref_ops ops (Queue dj))
   \<and> Queue (snd (exec_ops ops dj)) = snd (ref_ops ops (Queue dj))
   \<and> (\<forall>k < length ops.
        int (length (Queue (snd (exec_op (ops ! k) (snd (exec_ops (take k ops) dj)))))) =
          predicted_length (ops ! k)
            (fst (exec_op (ops ! k) (snd (exec_ops (take k ops) dj))))
            (int (length (Queue (snd (exec_ops (take k ops) dj))))))"
proof -
  have "map_prod id Queue (exec_ops ops dj) = ref_ops ops (Queue dj)"
    by (rule exec_ops_refines)
  then have "fst (exec_ops ops dj) = fst (ref_ops ops (Queue dj))"
    and "Queue (snd (exec_ops ops dj)) = snd (ref_ops ops (Queue dj))"
    by (cases "exec_ops ops dj"; cases "ref_ops ops (Queue dj)"; simp)+
  then show ?thesis
    by (simp add: exec_op_length)
qed

text \<open>The same at a sequence of six calls on the empty \<open>Dj\<close>, two of which fail.\<close>

theorem queue_matches_list_model_witness:
  "Queue (snd (exec_ops [Add entry_A, Insert entry_B 0, RemoveAt 7, ReplaceAt entry_C 1,
                         RemoveAt 0, Insert entry_A (- 1)] Dj_zero)) = [entry_C]
   \<and> fst (exec_ops [Add entry_A, Insert entry_B 0, RemoveAt 7, ReplaceAt entry_C 1,
                    RemoveAt 0, Insert entry_A (- 1)] Dj_zero)
       = [None, None, Some OutOfRange, None, None, Some OutOfRange]
   \<and> length (Queue (snd (exec_ops [Add entry_A, Insert entry_B 0] Dj_zero))) = 2
   \<and> length (Queue (snd (exec_op (RemoveAt 7)
                (snd (exec_ops [Add entry_A, Insert entry_B 0] Dj_zero))))) = 2"
  using queue_matches_list_model
    [of "[Add entry_A, Insert entry_B 0, RemoveAt 7, ReplaceAt entry_C 1,
          RemoveAt 0, Insert entry_A (- 1)]" Dj_zero]
  by (simp add: ref_Add_def Dj_zero_def Queue_def AddEntry_def InsertEntry_def RemoveIndex_def
      set_Items_def copy_within_def QueueEntry_zero_def Media_zero_def Let_def OutOfRange_def)


text \<open>
  C5. \<open>InsertEntry\<close> with an index at or beyond the length returns no error and leaves the
  \<open>Dj\<close> that \<open>AddEntry\<close> leaves; with a negative index it returns \<open>OutOfRange\<close> and the
  \<open>Dj\<close> as it was.
\<close>

theorem insert_beyond_end_is_add:
  "(index \<ge> int (length (Queue dj)) \<longrightarrow> InsertEntry e index dj = (None, AddEntry e dj))
   \<and> (index < 0 \<longrightarrow> InsertEntry e index dj = (Some OutOfRange, dj))"
  by (simp add: InsertEntry_def AddEntry_def OutOfRange_def)

text \<open>On a queue of one entry: index 2 appends, index -1 fails.\<close>

theorem insert_beyond_end_is_add_witness:
  "(2::int) \<ge> int (length (Queue (set_Items [entry_A] Dj_zero)))
   \<and> InsertEntry entry_B 2 (set_Items [entry_A] Dj_zero)
       = (None, AddEntry entry_B (set_Items [entry_A] Dj_zero))
   \<and> Queue (AddEntry entry_B (set_Items [entry_A] Dj_zero)) = [entry_A, entry_B]
   \<and> (- 1 :: int) < 0
   \<and> InsertEntry entry_B (- 1) (set_Items [entry_A] Dj_zero)
       = (Some OutOfRange, set_Items [entry_A] Dj_zero)"
  using insert_beyond_end_is_add [where index = 2 and dj = "set_Items [entry_A] Dj_zero" and e = entry_B]
    insert_beyond_end_is_add [where index = "- 1" and dj = "set_Items [entry_A] Dj_zero" and e = entry_B]
  by (simp add: AddEntry_def)

text \<open>
  C6. \<open>RemoveIndex\<close>, \<open>ChangeIndex\<close> and \<open>EntryAtIndex\<close> return \<open>OutOfRange\<close> when the index
  is negative or at least the length, and no error otherwise; when one of them returns an
  error the \<open>Dj\<close>, and so the queue, is as it was.
\<close>

theorem index_errors_exactly_out_of_range:
  "(fst (RemoveIndex index dj) =
      (if index < 0 \<or> index \<ge> int (length (Queue dj)) then Some OutOfRange else None))
   \<and> (fst (ChangeIndex e index dj) =
      (if index < 0 \<or> index \<ge> int (length (Queue dj)) then Some OutOfRange else None))
   \<and> (snd (fst (EntryAtIndex index dj)) =
      (if index < 0 \<or> index \<ge> int (length (Queue dj)) then Some OutOfRange else None))
   \<and> (fst (RemoveIndex index dj) \<noteq> None \<longrightarrow> snd (RemoveIndex index dj) = dj)
   \<and> (fst (ChangeIndex e index dj) \<noteq> None \<longrightarrow> snd (ChangeIndex e index dj) = dj)
   \<and> (snd (fst (EntryAtIndex index dj)) \<noteq> None \<longrightarrow> snd (EntryAtIndex index dj) = dj)"
  by (auto simp: RemoveIndex_def ChangeIndex_def EntryAtIndex_def OutOfRange_def Let_def)

text \<open>On a queue of one entry: indices 1 and -1 fail and change nothing, index 0 succeeds.\<close>

theorem index_errors_exactly_out_of_range_witness:
  "RemoveIndex 1 (set_Items [entry_A] Dj_zero) = (Some OutOfRange, set_Items [entry_A] Dj_zero)
   \<and> ChangeIndex entry_B (- 1) (set_Items [entry_A] Dj_zero)
       = (Some OutOfRange, set_Items [entry_A] Dj_zero)
   \<and> snd (fst (EntryAtIndex 1 (set_Items [entry_A] Dj_zero))) = Some OutOfRange
   \<and> snd (EntryAtIndex 1 (set_Items [entry_A] Dj_zero)) = set_Items [entry_A] Dj_zero
   \<and> fst (RemoveIndex 0 (set_Items [entry_A] Dj_zero)) = None
   \<and> fst (ChangeIndex entry_B 0 (set_Items [entry_A] Dj_zero)) = None
   \<and> fst (EntryAtIndex 0 (set_Items [entry_A] Dj_zero)) = (entry_A, None)"
  using index_errors_exactly_out_of_range
      [where index = 1 and dj = "set_Items [entry_A] Dj_zero" and e = entry_B]
    index_errors_exactly_out_of_range
      [where index = "- 1" and dj = "set_Items [entry_A] Dj_zero" and e = entry_B]
    index_errors_exactly_out_of_range
      [where index = 0 and dj = "set_Items [entry_A] Dj_zero" and e = entry_B]
  by (auto simp: prod_eq_iff EntryAtIndex_def)

text \<open>
  C7. \<open>pop\<close> on an empty queue returns \<open>ErrorEmptyQueue\<close> with the zero entry and leaves the
  \<open>Dj\<close> as it was: the queue is still empty, \<open>currentEntry\<close> and \<open>songStarted\<close> are
  untouched.
\<close>

theorem pop_empty_queue:
  "Queue dj = [] \<Longrightarrow>
     pop dj = ((QueueEntry_zero, Some ErrorEmptyQueue), dj)
     \<and> Queue (snd (pop dj)) = []
     \<and> currentEntry (snd (pop dj)) = currentEntry dj
     \<and> songStarted (snd (pop dj)) = songStarted dj"
  by (simp add: pop_def)

text \<open>With a song playing and nothing waiting.\<close>

theorem pop_empty_queue_witness:
  "Queue (Dj_zero\<lparr>currentEntry := entry_A, songStarted := 42\<rparr>) = []
   \<and> pop (Dj_zero\<lparr>currentEntry := entry_A, songStarted := 42\<rparr>)
       = ((QueueEntry_zero, Some ErrorEmptyQueue),
          Dj_zero\<lparr>currentEntry := entry_A, songStarted := 42\<rparr>)
   \<and> currentEntry (snd (pop (Dj_zero\<lparr>currentEntry := entry_A, songStarted := 42\<rparr>))) = entry_A
   \<and> songStarted (snd (pop (Dj_zero\<lparr>currentEntry := entry_A, songStarted := 42\<rparr>))) = 42"
proof -
  have h: "Queue (Dj_zero\<lparr>currentEntry := entry_A, songStarted := 42\<rparr>) = []"
    by (simp add: Queue_def Dj_zero_def)
  from pop_empty_queue [OF h] h show ?thesis by simp
qed

text \<open>
  C10. \<open>CurrentlyPlaying\<close> always returns the current entry and the time since
  \<open>songStarted\<close>; its error is \<open>NothingPlaying\<close> exactly when the \<open>Media\<close> of the current
  entry equals the zero \<open>Media\<close>. So a current entry that is not the zero entry but has the
  zero \<open>Media\<close> is reported as nothing playing.
\<close>

theorem currently_playing_zero_media:
  "CurrentlyPlaying time_Since dj =
     (currentEntry dj, time_Since (songStarted dj),
      if Media (currentEntry dj) = Media_zero then Some NothingPlaying else None)
   \<and> (Media (currentEntry dj) = Media_zero \<and> currentEntry dj \<noteq> QueueEntry_zero \<longrightarrow>
        CurrentlyPlaying time_Since dj
          = (currentEntry dj, time_Since (songStarted dj), Some NothingPlaying))"
  by (simp add: CurrentlyPlaying_def NothingPlaying_def)

text \<open>A current entry owned by \<open>User1\<close> with no title, URL or duration.\<close>

theorem currently_playing_zero_media_witness:
  "Media (QueueEntry_zero\<lparr>Owner := ''User1''\<rparr>) = Media_zero
   \<and> QueueEntry_zero\<lparr>Owner := ''User1''\<rparr> \<noteq> QueueEntry_zero
   \<and> CurrentlyPlaying (\<lambda>t. 100 - word_of_int t)
        (Dj_zero\<lparr>currentEntry := QueueEntry_zero\<lparr>Owner := ''User1''\<rparr>, songStarted := 40\<rparr>)
       = (QueueEntry_zero\<lparr>Owner := ''User1''\<rparr>, 60, Some NothingPlaying)"
  using currently_playing_zero_media
    [of "\<lambda>t. 100 - word_of_int t"
        "Dj_zero\<lparr>currentEntry := QueueEntry_zero\<lparr>Owner := ''User1''\<rparr>, songStarted := 40\<rparr>"]
  by (simp add: QueueEntry_zero_def)

section \<open>Waiting times\<close>

lemma DurationUntilUser_loop_eq:
  "DurationUntilUser_loop nick xs dur durations =
     durations @ map (\<lambda>i. dur + sum_list (map (\<lambda>e. Duration (Media e)) (take i xs)))
                   (filter (\<lambda>i. Owner (xs ! i) = nick) [0..<length xs])"
proof (induction xs arbitrary: dur durations)
  case Nil
  show ?case by simp
next
  case (Cons content rest)
  have idx: "[0..<length (content # rest)] = 0 # map Suc [0..<length rest]"
    by (simp add: upt_conv_Cons map_Suc_upt del: upt_Suc)
  show ?case
    unfolding idx
    by (simp add: Cons.IH filter_map comp_def add.assoc)
qed

text \<open>
  C4. \<open>DurationUntilUser\<close> returns one duration for each queue entry owned by \<open>nick\<close>, in
  queue order: the base (the current entry's duration minus the time since \<open>songStarted\<close>)
  plus the sum of the durations of all entries before that entry, the sums taken in
  \<open>time.Duration\<close>. For the queue \<open>[A, B, C]\<close> of owners X, Y, X and durations 10, 5, 7 and
  base 2, the result for X is \<open>[2, 17]\<close>.
\<close>

theorem duration_until_user:
  "DurationUntilUser time_Since dj nick =
     map (\<lambda>i. (Duration (Media (currentEntry dj)) - time_Since (songStarted dj))
               + sum_list (map (\<lambda>e. Duration (Media e)) (take i (Queue dj))))
         (filter (\<lambda>i. Owner (Queue dj ! i) = nick) [0..<length (Queue dj)])
   \<and> (Queue dj = [entry_A, entry_B, entry_C]
        \<and> Duration (Media (currentEntry dj)) - time_Since (songStarted dj) = 2
      \<longrightarrow> DurationUntilUser time_Since dj ''X'' = [2, 17])"
proof -
  have "Queue dj = [entry_A, entry_B, entry_C]
        \<and> Duration (Media (currentEntry dj)) - time_Since (songStarted dj) = 2
      \<longrightarrow> DurationUntilUser time_Since dj ''X'' = [2, 17]"
    by (simp add: DurationUntilUser_def entry_A_def entry_B_def entry_C_def)
  then show ?thesis
    by (simp add: DurationUntilUser_def DurationUntilUser_loop_eq)
qed

text \<open>The example with a current entry of duration 5 that started 3 ago.\<close>

theorem duration_until_user_witness:
  "Queue (set_Items [entry_A, entry_B, entry_C] (Dj_zero\<lparr>currentEntry := entry_B, songStarted := 40\<rparr>))
     = [entry_A, entry_B, entry_C]
   \<and> Duration (Media entry_B) - (\<lambda>t. 43 - word_of_int t) (40::int) = (2 :: duration)
   \<and> DurationUntilUser (\<lambda>t. 43 - word_of_int t)
        (set_Items [entry_A, entry_B, entry_C] (Dj_zero\<lparr>currentEntry := entry_B, songStarted := 40\<rparr>))
        ''X'' = [2, 17]
   \<and> DurationUntilUser (\<lambda>t. 43 - word_of_int t)
        (set_Items [entry_A, entry_B, entry_C] (Dj_zero\<lparr>currentEntry := entry_B, songStarted := 40\<rparr>))
        ''Y'' = [12]"
  using duration_until_user [of "\<lambda>t. 43 - word_of_int t"
      "set_Items [entry_A, entry_B, entry_C] (Dj_zero\<lparr>currentEntry := entry_B, songStarted := 40\<rparr>)"
      "''X''"]
   duration_until_user [of "\<lambda>t. 43 - word_of_int t"
      "set_Items [entry_A, entry_B, entry_C] (Dj_zero\<lparr>currentEntry := entry_B, songStarted := 40\<rparr>)"
      "''Y''"]
  by (simp add: entry_A_def entry_B_def entry_C_def set_Items_def Queue_def Dj_zero_def
        DurationUntilUser_def)

text \<open>
  The sums above wrap at 64 bits, as \<open>dur += content.Media.Duration\<close> does. When the exact
  sum of the signed values fits in 64 bits, the wrapped sum read as a signed number is that sum.
\<close>

lemma duration_sum_of_int:
  fixes b :: duration
  shows "b + sum_list ds = word_of_int (sint b + sum_list (map sint ds))"
  by (induction ds arbitrary: b) (simp_all add: algebra_simps)

lemma duration_sum_exact:
  fixes b :: duration
  assumes "- (2 ^ 63) \<le> sint b + sum_list (map sint ds)"
    and "sint b + sum_list (map sint ds) < 2 ^ 63"
  shows "sint (b + sum_list ds) = sint b + sum_list (map sint ds)"
proof -
  have "sint (word_of_int (sint b + sum_list (map sint ds)) :: duration)
          = signed_take_bit (LENGTH(64) - 1) (sint b + sum_list (map sint ds))"
    by (rule sint_sbintrunc')
  then have "sint (b + sum_list ds) = signed_take_bit 63 (sint b + sum_list (map sint ds))"
    by (simp only: duration_sum_of_int [symmetric]) simp
  also have "\<dots> = sint b + sum_list (map sint ds)"
    using assms by (simp add: signed_take_bit_int_eq_self)
  finally show ?thesis .
qed

section \<open>The producer loop\<close>

text \<open>
  C2. A run in which \<open>ffmpeg\<close> exits with status 1 while writing the first of two queued
  entries: the loop returns the error, \<open>endOfSongHandler\<close> is not called for that entry, and
  the second entry stays in the queue.
\<close>

theorem encode_failure_ends_session:
  "producer (world_ok\<lparr>ffmpeg := (\<lambda>n args. if n = 0 then Some (ExecError 1) else None)\<rparr>) []
     (set_Items [entry_A, entry_B] (Dj_zero\<lparr>handlers := handlers_all\<rparr>))
   = (Some (Errorf ''failed to write to pipe'' (ExecError 1)),
      \<lparr>st_dj = set_Items [entry_B]
                 (Dj_zero\<lparr>handlers := handlers_all, currentEntry := entry_A, songStarted := 1000\<rparr>),
       emptyStreamCounter = 0,
       trace = [Popped entry_A, NewSong entry_A,
                Audio entry_A (audio_args ''stream:https://a'' @ encoder_args)
                  (Some (Errorf ''failed to write to pipe'' (ExecError 1)))]\<rparr>)"
  by (simp add: producer_def producer_loop.simps iteration_def others_def pop_def writeToFIFO_def
      world_ok_def handlers_all_def Let_def Queue_def set_Items_def Dj_zero_def
      entry_A_def entry_B_def)


text \<open>
  C3. A run in which the queue is empty for two passes, another goroutine then adds an entry,
  and nobody adds anything afterwards: \<open>emptyStreamCounter\<close> is not reset by the successful
  \<open>pop\<close>, so the loop ends after two more silence segments, not four.
\<close>

theorem counter_survives_a_song:
  "producer world_ok [[], [], [Add entry_A]] (Dj_zero\<lparr>handlers := handlers_all\<rparr>)
   = (None,
      \<lparr>st_dj = Dj_zero\<lparr>handlers := handlers_all, songStarted := 1002\<rparr>,
       emptyStreamCounter = 4,
       trace = [Silence (silence_args @ encoder_args) None,
                Silence (silence_args @ encoder_args) None,
                Popped entry_A, NewSong entry_A,
                Audio entry_A (audio_args ''stream:https://a'' @ encoder_args) None,
                EndOfSong entry_A None,
                Silence (silence_args @ encoder_args) None,
                Silence (silence_args @ encoder_args) None]\<rparr>)"
  by (simp add: producer_def producer_loop.simps iteration_def others_def pop_def writeToFIFO_def
      world_ok_def handlers_all_def Let_def Queue_def set_Items_def Dj_zero_def AddEntry_def
      entry_A_def)









section \<open>Order of songs in a run\<close>

lemma exec_op_handlers: "handlers (snd (exec_op c d)) = handlers d"
  by (cases c) (simp_all add: AddEntry_def InsertEntry_def RemoveIndex_def ChangeIndex_def
      set_Items_def Let_def)

lemma exec_ops_handlers: "handlers (snd (exec_ops cs d)) = handlers d"
  by (induction cs arbitrary: d) (simp_all add: split_beta exec_op_handlers)

lemma others_keeps:
  "trace (others sched st) = trace st"
  "handlers (st_dj (others sched st)) = handlers (st_dj st)"
  by (cases sched; simp add: others_def exec_ops_handlers)+

lemma iteration_Continue:
  assumes "iteration w n st = Continue st'"
  shows "handlers (st_dj st') = handlers (st_dj st)
         \<and> (\<exists>p. trace st' = trace st @ pass_events (handlers (st_dj st)) w n p
                \<and> pass_completed w n p)"
proof (cases "Queue (st_dj st) = []")
  case True
  with assms have "handlers (st_dj st') = handlers (st_dj st)
      \<and> trace st' = trace st @ pass_events (handlers (st_dj st)) w n None
      \<and> pass_completed w n None"
    by (auto simp: iteration_def pop_def Let_def writeToFIFO_def pass_events_def
        pass_completed_def write_result_def split: if_splits option.splits)
  then show ?thesis by blast
next
  case False
  with assms have "handlers (st_dj st') = handlers (st_dj st)
      \<and> trace st' = trace st @ pass_events (handlers (st_dj st)) w n (Some (Queue (st_dj st) ! 0))
      \<and> pass_completed w n (Some (Queue (st_dj st) ! 0))"
    by (auto simp: iteration_def pop_def Let_def writeToFIFO_def pass_events_def
        pass_completed_def write_result_def set_Items_def new_song_events_def
        end_song_events_def split: if_splits option.splits sum.splits)
  then show ?thesis by blast
qed

lemma iteration_Break:
  assumes "iteration w n st = Break st'"
  shows "trace st' = trace st"
  using assms
  by (auto simp: iteration_def pop_def Let_def split: if_splits option.splits sum.splits)

lemma iteration_Return:
  assumes "iteration w n st = Return e st'"
  shows "\<exists>p. trace st' = trace st @ pass_events (handlers (st_dj st)) w n p"
proof (cases "Queue (st_dj st) = []")
  case True
  with assms have "trace st' = trace st @ pass_events (handlers (st_dj st)) w n None"
    by (auto simp: iteration_def pop_def Let_def writeToFIFO_def pass_events_def
        write_result_def split: if_splits option.splits)
  then show ?thesis by blast
next
  case False
  with assms
  have "trace st' = trace st @ pass_events (handlers (st_dj st)) w n (Some (Queue (st_dj st) ! 0))"
    by (auto simp: iteration_def pop_def Let_def writeToFIFO_def pass_events_def
        write_result_def set_Items_def new_song_events_def
        split: if_splits option.splits sum.splits)
  then show ?thesis by blast
qed

lemma producer_loop_passes:
  assumes "producer_loop w sched n st = (res, st')" and "handlers (st_dj st) = h"
  shows "\<exists>ps. trace st' = trace st @ run_events h w n ps
              \<and> (\<forall>k. Suc k < length ps \<longrightarrow> pass_completed w (n + k) (ps ! k))"
  using assms
proof (induction w sched n st rule: producer_loop.induct)
  case (1 w sched n st)
  let ?st1 = "others sched st"
  have tr: "trace ?st1 = trace st" and hs: "handlers (st_dj ?st1) = h"
    using "1.prems"(2) by (simp_all add: others_keeps)
  show ?case
  proof (cases "iteration w n ?st1")
    case (Continue st2)
    from iteration_Continue [OF Continue] hs tr
    obtain p where h2: "handlers (st_dj st2) = h"
      and t2: "trace st2 = trace st @ pass_events h w n p"
      and c2: "pass_completed w n p"
      by auto
    from "1.prems"(1) Continue
    have "producer_loop w (tl sched) (Suc n) st2 = (res, st')"
      by (subst (asm) producer_loop.simps) simp
    from "1.IH" [OF Continue this h2]
    obtain ps where t': "trace st' = trace st2 @ run_events h w (Suc n) ps"
      and c': "\<forall>k. Suc k < length ps \<longrightarrow> pass_completed w (Suc n + k) (ps ! k)"
      by blast
    have "trace st' = trace st @ run_events h w n (p # ps)"
      using t2 t' by simp
    moreover have "\<forall>k. Suc k < length (p # ps) \<longrightarrow> pass_completed w (n + k) ((p # ps) ! k)"
    proof (intro allI impI)
      fix k
      assume k: "Suc k < length (p # ps)"
      show "pass_completed w (n + k) ((p # ps) ! k)"
      proof (cases k)
        case 0
        with c2 show ?thesis by simp
      next
        case (Suc k')
        with k c' show ?thesis by simp
      qed
    qed
    ultimately show ?thesis by blast
  next
    case (Break st2)
    with "1.prems"(1) have "st' = st2"
      by (subst (asm) producer_loop.simps) simp
    with iteration_Break [OF Break] tr have "trace st' = trace st @ run_events h w n []"
      by simp
    then show ?thesis by (intro exI [of _ "[]"]) simp
  next
    case (Return e st2)
    with "1.prems"(1) have "st' = st2"
      by (subst (asm) producer_loop.simps) simp
    with iteration_Return [OF Return] tr hs
    obtain p where "trace st' = trace st @ run_events h w n [p]"
      by auto
    then show ?thesis by (intro exI [of _ "[p]"]) simp
  qed
qed


lemma run_events_append:
  "run_events h w n (ps @ qs) = run_events h w n ps @ run_events h w (n + length ps) qs"
  by (induction ps arbitrary: n) simp_all

lemma run_events_split:
  assumes "i < length ps"
  shows "run_events h w n ps =
           run_events h w n (take i ps) @ pass_events h w (n + i) (ps ! i)
           @ run_events h w (Suc (n + i)) (drop (Suc i) ps)"
proof -
  have "ps = take i ps @ ps ! i # drop (Suc i) ps"
    using assms by (rule id_take_nth_drop)
  then have "run_events h w n ps = run_events h w n (take i ps @ ps ! i # drop (Suc i) ps)"
    by simp
  also have "\<dots> = run_events h w n (take i ps) @ pass_events h w (n + i) (ps ! i)
                   @ run_events h w (Suc (n + i)) (drop (Suc i) ps)"
    using assms by (simp only: run_events_append run_events.simps length_take) simp
  finally show ?thesis .
qed

lemma pass_events_completed:
  assumes "pass_completed w n (Some x)"
  shows "\<exists>output.
           yt_dlp w n [''-f'', ''bestaudio'', ''-g'', URL (Media x)] = Inr output
           \<and> ffmpeg w n (audio_args (TrimSpace w output) @ encoder_args) = None
           \<and> pass_events h w n (Some x) =
               Popped x # song_events h x (audio_args (TrimSpace w output) @ encoder_args)"
  using assms
  by (auto simp: pass_completed_def pass_events_def song_events_def end_song_events_def
      write_result_def split: sum.splits)

text \<open>
  C9. Every run of the producer is its passes one after the other, each pass being exactly
  the events of \<open>pass_events\<close> for what it popped, and every pass but the last ran to its end.
  So for any two passes \<open>i < j\<close> that popped \<open>a\<close> and \<open>b\<close>, the run is: the passes before
  \<open>i\<close>; then \<open>a\<close>'s pop, \<open>a\<close>'s new-song callback, the \<open>ffmpeg\<close> run that wrote \<open>a\<close>'s
  audio and returned no error, \<open>a\<close>'s end-of-song callback; then the passes between; then
  \<open>b\<close>'s pop followed by \<open>b\<close>'s new-song callback and the run writing \<open>b\<close>'s audio; then
  the later passes. Nothing of pass \<open>j\<close> comes before the end of pass \<open>i\<close>.
\<close>

theorem songs_in_order:
  assumes "producer w sched dj = (res, st)"
  shows "\<exists>popped.
           trace st = run_events (handlers dj) w 0 popped
           \<and> (\<forall>k. Suc k < length popped \<longrightarrow> pass_completed w k (popped ! k))
           \<and> (\<forall>i j a b.
                 i < j \<and> j < length popped \<and> popped ! i = Some a \<and> popped ! j = Some b \<longrightarrow>
                 (\<exists>output.
                    yt_dlp w i [''-f'', ''bestaudio'', ''-g'', URL (Media a)] = Inr output
                    \<and> ffmpeg w i (audio_args (TrimSpace w output) @ encoder_args) = None
                    \<and> trace st =
                        run_events (handlers dj) w 0 (take i popped)
                        @ Popped a
                          # song_events (handlers dj) a
                              (audio_args (TrimSpace w output) @ encoder_args)
                        @ run_events (handlers dj) w (Suc i)
                            (take (j - Suc i) (drop (Suc i) popped))
                        @ pass_events (handlers dj) w j (Some b)
                        @ run_events (handlers dj) w (Suc j) (drop (Suc j) popped)))"
proof -
  let ?h = "handlers dj"
  have "\<exists>ps. trace st = [] @ run_events ?h w 0 ps
             \<and> (\<forall>k. Suc k < length ps \<longrightarrow> pass_completed w (0 + k) (ps ! k))"
  proof (cases "open_fifo w")
    case None
    with assms have "producer_loop w sched 0 \<lparr>st_dj = dj, emptyStreamCounter = 0, trace = []\<rparr>
                       = (res, st)"
      by (simp add: producer_def)
    from producer_loop_passes [OF this, of ?h] show ?thesis by simp
  next
    case (Some e)
    with assms have "trace st = []" by (auto simp: producer_def)
    then show ?thesis by (intro exI [of _ "[]"]) simp
  qed
  then obtain ps where tr: "trace st = run_events ?h w 0 ps"
    and compl: "\<forall>k. Suc k < length ps \<longrightarrow> pass_completed w k (ps ! k)"
    by auto
  have two: "\<exists>output.
               yt_dlp w i [''-f'', ''bestaudio'', ''-g'', URL (Media a)] = Inr output
               \<and> ffmpeg w i (audio_args (TrimSpace w output) @ encoder_args) = None
               \<and> trace st =
                   run_events ?h w 0 (take i ps)
                   @ Popped a # song_events ?h a (audio_args (TrimSpace w output) @ encoder_args)
                   @ run_events ?h w (Suc i) (take (j - Suc i) (drop (Suc i) ps))
                   @ pass_events ?h w j (Some b)
                   @ run_events ?h w (Suc j) (drop (Suc j) ps)"
    if ij: "i < j" "j < length ps" and a: "ps ! i = Some a" and b: "ps ! j = Some b"
    for i j a b
  proof -
    let ?r = "drop (Suc i) ps"
    from ij have i: "i < length ps" and si: "Suc i < length ps" by simp_all
    from ij have j': "j - Suc i < length ?r" by simp
    from ij have nth: "?r ! (j - Suc i) = ps ! j" by simp
    from ij have rest: "drop (Suc (j - Suc i)) ?r = drop (Suc j) ps" by simp
    from ij have num: "Suc i + (j - Suc i) = j" by simp
    from compl si a have "pass_completed w i (Some a)" by metis
    from pass_events_completed [OF this, of ?h]
    obtain out
      where yt: "yt_dlp w i [''-f'', ''bestaudio'', ''-g'', URL (Media a)] = Inr out"
        and ff: "ffmpeg w i (audio_args (TrimSpace w out) @ encoder_args) = None"
        and pa: "pass_events ?h w i (Some a) =
                   Popped a # song_events ?h a (audio_args (TrimSpace w out) @ encoder_args)"
      by blast
    have "trace st = run_events ?h w 0 (take i ps) @ pass_events ?h w i (Some a)
                     @ run_events ?h w (Suc i) ?r"
      using run_events_split [OF i, of ?h w 0] a by (simp add: tr)
    also have "run_events ?h w (Suc i) ?r =
                 run_events ?h w (Suc i) (take (j - Suc i) ?r) @ pass_events ?h w j (Some b)
                 @ run_events ?h w (Suc j) (drop (Suc j) ps)"
      using run_events_split [OF j', of ?h w "Suc i"] by (simp only: nth rest num b)
    finally have "trace st =
                   run_events ?h w 0 (take i ps)
                   @ Popped a # song_events ?h a (audio_args (TrimSpace w out) @ encoder_args)
                   @ run_events ?h w (Suc i) (take (j - Suc i) ?r)
                   @ pass_events ?h w j (Some b)
                   @ run_events ?h w (Suc j) (drop (Suc j) ps)"
      by (simp add: pa)
    with yt ff show ?thesis by blast
  qed
  show ?thesis
  proof (intro exI [of _ ps] conjI allI impI)
    show "trace st = run_events ?h w 0 ps" by (rule tr)
  next
    fix k assume "Suc k < length ps"
    with compl show "pass_completed w k (ps ! k)" by simp
  next
    fix i j a b
    assume "i < j \<and> j < length ps \<and> ps ! i = Some a \<and> ps ! j = Some b"
    then show "\<exists>output.
               yt_dlp w i [''-f'', ''bestaudio'', ''-g'', URL (Media a)] = Inr output
               \<and> ffmpeg w i (audio_args (TrimSpace w output) @ encoder_args) = None
               \<and> trace st =
                   run_events ?h w 0 (take i ps)
                   @ Popped a # song_events ?h a (audio_args (TrimSpace w output) @ encoder_args)
                   @ run_events ?h w (Suc i) (take (j - Suc i) (drop (Suc i) ps))
                   @ pass_events ?h w j (Some b)
                   @ run_events ?h w (Suc j) (drop (Suc j) ps)"
      using two by blast
  qed
qed

text \<open>
  Two queued entries, all handlers registered, every external call succeeding: passes 0 and 1
  pop \<open>A\<close> and \<open>B\<close>, four passes write silence, and the loop ends without error.
\<close>

theorem songs_in_order_witness:
  "producer world_ok [] two_songs
     = (None, \<lparr>st_dj = Dj_zero\<lparr>handlers := handlers_all, songStarted := 1001\<rparr>,
               emptyStreamCounter = 4, trace = two_songs_trace\<rparr>)
   \<and> two_songs_trace
       = run_events handlers_all world_ok 0 [Some entry_A, Some entry_B, None, None, None, None]
   \<and> (\<exists>popped.
         two_songs_trace = run_events handlers_all world_ok 0 popped
         \<and> (\<forall>k. Suc k < length popped \<longrightarrow> pass_completed world_ok k (popped ! k))
         \<and> (\<forall>i j a b.
               i < j \<and> j < length popped \<and> popped ! i = Some a \<and> popped ! j = Some b \<longrightarrow>
               (\<exists>output.
                  yt_dlp world_ok i [''-f'', ''bestaudio'', ''-g'', URL (Media a)] = Inr output
                  \<and> ffmpeg world_ok i (audio_args (TrimSpace world_ok output) @ encoder_args) = None
                  \<and> two_songs_trace =
                      run_events handlers_all world_ok 0 (take i popped)
                      @ Popped a
                        # song_events handlers_all a
                            (audio_args (TrimSpace world_ok output) @ encoder_args)
                      @ run_events handlers_all world_ok (Suc i)
                          (take (j - Suc i) (drop (Suc i) popped))
                      @ pass_events handlers_all world_ok j (Some b)
                      @ run_events handlers_all world_ok (Suc j) (drop (Suc j) popped))))"
proof -
  let ?st = "\<lparr>st_dj = Dj_zero\<lparr>handlers := handlers_all, songStarted := 1001\<rparr>,
              emptyStreamCounter = 4, trace = two_songs_trace\<rparr>"
  have run: "producer world_ok [] two_songs = (None, ?st)"
    by (simp add: two_songs_def two_songs_trace_def producer_def producer_loop.simps
        iteration_def others_def pop_def writeToFIFO_def world_ok_def handlers_all_def Let_def
        Queue_def set_Items_def Dj_zero_def entry_A_def entry_B_def audio_args_def
        encoder_args_def)
  have passes: "two_songs_trace
       = run_events handlers_all world_ok 0 [Some entry_A, Some entry_B, None, None, None, None]"
    by (simp add: two_songs_trace_def pass_events_def write_result_def world_ok_def
        new_song_events_def end_song_events_def handlers_all_def entry_A_def entry_B_def
        audio_args_def encoder_args_def)
  have h: "handlers two_songs = handlers_all"
    by (simp add: two_songs_def set_Items_def)
  have t: "trace ?st = two_songs_trace"
    by simp
  from songs_in_order [OF run] run passes show ?thesis
    unfolding h t by (intro conjI)
qed

end
